theory Spec2Isabelle
  imports Main
begin

section \<open>Cells, grids and the Python primitives the engine uses\<close>

text \<open>
  The program is \<^verbatim>\<open>cellular_simulation.py\<close>. A matrix is a Python list of lists of
  strings (\<^verbatim>\<open>List[List[str]]\<close>); a cell is the string \<^verbatim>\<open>'O'\<close> (alive) or
  \<^verbatim>\<open>'.'\<close> (dead), but nothing in the type stops another string from occurring.
  Python integers are unbounded, hence \<open>int\<close>.
\<close>

type_synonym cell = string
type_synonym matrix = "cell list list"

definition ALIVE :: cell where
  "ALIVE = ''O''"

definition DEAD :: cell where
  "DEAD = ''.''"

text \<open>The two exceptions that list indexing and \<^verbatim>\<open>%\<close> can raise.\<close>

datatype error = IndexError | ZeroDivisionError

definition py_len :: "'a list \<Rightarrow> int" where
  "py_len xs = int (length xs)"

text \<open>
  \<^verbatim>\<open>xs[i]\<close>: an index in \<open>[0, len)\<close> reads from the front, one in \<open>[-len, 0)\<close> reads
  from the back, anything else raises \<^verbatim>\<open>IndexError\<close>.
\<close>

definition py_index :: "'a list \<Rightarrow> int \<Rightarrow> error + 'a" where
  "py_index xs i =
     (if 0 \<le> i \<and> i < py_len xs then Inr (xs ! nat i)
      else if - py_len xs \<le> i \<and> i < 0 then Inr (xs ! nat (py_len xs + i))
      else Inl IndexError)"

text \<open>\<^verbatim>\<open>xs[i] = v\<close>, with the same index rule; the updated list is returned.\<close>

definition py_store :: "'a list \<Rightarrow> int \<Rightarrow> 'a \<Rightarrow> error + 'a list" where
  "py_store xs i v =
     (if 0 \<le> i \<and> i < py_len xs then Inr (xs[nat i := v])
      else if - py_len xs \<le> i \<and> i < 0 then Inr (xs[nat (py_len xs + i) := v])
      else Inl IndexError)"

text \<open>
  \<^verbatim>\<open>a % b\<close> on integers: floored remainder (the sign of the divisor), which is what
  \<open>mod\<close> on \<open>int\<close> computes; a zero divisor raises.
\<close>

definition py_mod :: "int \<Rightarrow> int \<Rightarrow> error + int" where
  "py_mod a b = (if b = 0 then Inl ZeroDivisionError else Inr (a mod b))"

text \<open>\<^verbatim>\<open>range(a, b)\<close>: the integers from \<open>a\<close> up to \<open>b - 1\<close>.\<close>

definition py_range :: "int \<Rightarrow> int \<Rightarrow> int list" where
  "py_range a b = [a..b - 1]"

text \<open>
  Sequencing: an exception raised by the first computation is the result; otherwise the
  second one runs on the value.
\<close>

definition and_then :: "error + 'a \<Rightarrow> ('a \<Rightarrow> error + 'b) \<Rightarrow> error + 'b" where
  "and_then m f = (case m of Inl e \<Rightarrow> Inl e | Inr v \<Rightarrow> f v)"

text \<open>
  \<^verbatim>\<open>for i in xs: body\<close> over a state \<open>s\<close>: the body runs once per element, in order,
  and the first exception leaves the loop.
\<close>

primrec for_loop :: "'i list \<Rightarrow> ('i \<Rightarrow> 's \<Rightarrow> error + 's) \<Rightarrow> 's \<Rightarrow> error + 's" where
  "for_loop [] body s = Inr s"
| "for_loop (i # rest) body s =
     (case body i s of Inl e \<Rightarrow> Inl e | Inr s' \<Rightarrow> for_loop rest body s')"

section \<open>The neighbourhood counter\<close>

text \<open>
  The body of the inner loop of \<^verbatim>\<open>count_alive_neighbors\<close>, for one pair \<open>(r, c)\<close>:
  \<^verbatim>\<open>continue\<close> at the cell itself, otherwise wrap both coordinates, read the cell and
  count it when it equals \<^verbatim>\<open>ALIVE\<close>.
\<close>

definition neighbor_visit ::
  "matrix \<Rightarrow> int \<Rightarrow> int \<Rightarrow> int \<Rightarrow> int \<Rightarrow> int \<Rightarrow> int \<Rightarrow> int \<Rightarrow> error + int" where
  "neighbor_visit matrix rows cols row col r c alive_count =
     (if r = row \<and> c = col then Inr alive_count
      else
        and_then (py_mod r rows) (\<lambda>wrapped_r.
        and_then (py_mod c cols) (\<lambda>wrapped_c.
        and_then (py_index matrix wrapped_r) (\<lambda>line.
        and_then (py_index line wrapped_c) (\<lambda>v.
          Inr (if v = ALIVE then alive_count + 1 else alive_count))))))"

definition count_alive_neighbors :: "matrix \<Rightarrow> int \<Rightarrow> int \<Rightarrow> error + int" where
  "count_alive_neighbors matrix row col =
     (let rows = py_len matrix in
      and_then (py_index matrix 0) (\<lambda>first_row.
        let cols = py_len first_row in
        for_loop (py_range (row - 1) (row + 2))
          (\<lambda>r. for_loop (py_range (col - 1) (col + 2))
                  (neighbor_visit matrix rows cols row col r))
          0))"

section \<open>The transition engine\<close>

text \<open>
  \<^verbatim>\<open>determine_cell_state\<close> counts first and reads \<^verbatim>\<open>matrix[row][col]\<close> afterwards.
  \<^verbatim>\<open>alive_neighbors in [2, 3, 4]\<close> is membership in a three-element list.
\<close>

definition determine_cell_state :: "matrix \<Rightarrow> int \<Rightarrow> int \<Rightarrow> error + cell" where
  "determine_cell_state matrix row col =
     and_then (count_alive_neighbors matrix row col) (\<lambda>alive_neighbors.
     and_then (py_index matrix row) (\<lambda>line.
     and_then (py_index line col) (\<lambda>v.
       Inr (if v = ALIVE
            then (if alive_neighbors \<in> set [2, 3, 4] then ALIVE else DEAD)
            else (if alive_neighbors > 0 \<and> alive_neighbors mod 2 = 0 then ALIVE else DEAD)))))"

text \<open>
  \<^verbatim>\<open>new_matrix[row][col] = determine_cell_state(matrix, row, col)\<close>: the right-hand side
  is evaluated first, then the row of the new matrix is fetched and its slot overwritten.
  The rows of \<^verbatim>\<open>new_matrix\<close> are built by a list comprehension, one fresh list per row,
  so no two of them are the same object and the update touches one row only.
\<close>

definition assign_cell :: "matrix \<Rightarrow> int \<Rightarrow> int \<Rightarrow> matrix \<Rightarrow> error + matrix" where
  "assign_cell matrix row col new_matrix =
     and_then (determine_cell_state matrix row col) (\<lambda>v.
     and_then (py_index new_matrix row) (\<lambda>line.
     and_then (py_store line col v) (\<lambda>line'.
       py_store new_matrix row line')))"

definition step_matrix :: "matrix \<Rightarrow> error + matrix" where
  "step_matrix matrix =
     (let rows = py_len matrix in
      and_then (py_index matrix 0) (\<lambda>first_row.
        let cols = py_len first_row;
            new_matrix = replicate (nat rows) (replicate (nat cols) DEAD)
        in for_loop (py_range 0 rows)
             (\<lambda>row. for_loop (py_range 0 cols) (\<lambda>col. assign_cell matrix row col))
             new_matrix))"

section \<open>Notions of the specification\<close>

text \<open>
  The definitions of this section are not taken from the program: they say what the
  specification means by a valid grid, by the toroidal neighbour count and by the
  two-valued cell invariant, so that the program can be compared with them.
\<close>

text \<open>
  A valid grid: at least one row, at least one column, and every row as long as the first.
\<close>

definition rectangular :: "matrix \<Rightarrow> bool" where
  "rectangular g \<longleftrightarrow>
     g \<noteq> [] \<and> hd g \<noteq> [] \<and> list_all (\<lambda>line. length line = length (hd g)) g"

text \<open>The contribution of the cell at \<open>(r, c)\<close> to a count: 1 when it is alive, else 0.\<close>

definition live :: "matrix \<Rightarrow> int \<Rightarrow> int \<Rightarrow> int" where
  "live g r c = (if g ! nat r ! nat c = ALIVE then 1 else 0)"

text \<open>
  The eight neighbour offsets, as the set the specification describes and as the list of
  them in the order in which the two loops of the counter meet them.
\<close>

definition offsets8 :: "(int \<times> int) list" where
  "offsets8 = [(-1, -1), (-1, 0), (-1, 1), (0, -1), (0, 1), (1, -1), (1, 0), (1, 1)]"

definition neighbor_offsets :: "(int \<times> int) set" where
  "neighbor_offsets = ({-1, 0, 1} \<times> {-1, 0, 1}) - {(0, 0)}"

text \<open>
  The count the specification asks for: the number of offsets whose cell, with each
  coordinate wrapped by a non-negative modulo, is alive.
\<close>

definition spec_live_neighbors :: "matrix \<Rightarrow> int \<Rightarrow> int \<Rightarrow> int" where
  "spec_live_neighbors g row col =
     int (card (Set.filter
       (\<lambda>(dr, dc). g ! nat ((row + dr) mod py_len g) ! nat ((col + dc) mod py_len (hd g)) = ALIVE)
       neighbor_offsets))"

text \<open>The cell invariant: every cell is one of the two cell states.\<close>

definition two_valued :: "matrix \<Rightarrow> bool" where
  "two_valued g \<longleftrightarrow> list_all (list_all (\<lambda>v. v = ALIVE \<or> v = DEAD)) g"

text \<open>Every cell is dead.\<close>

definition all_dead :: "matrix \<Rightarrow> bool" where
  "all_dead g \<longleftrightarrow> list_all (list_all (\<lambda>v. v = DEAD)) g"

text \<open>A cell as the engine reads it: whatever is not \<^verbatim>\<open>'O'\<close> counts as dead.\<close>

definition as_dead :: "cell \<Rightarrow> cell" where
  "as_dead v = (if v = ALIVE then ALIVE else DEAD)"

text \<open>The end-to-end fixture: row 0 alive, rows 1 and 2 dead.\<close>

definition top_row_alive :: matrix where
  "top_row_alive = [[''O'', ''O'', ''O''], [''.'', ''.'', ''.''], [''.'', ''.'', ''.'']]"

section \<open>Ranges, indexing and loops\<close>

lemma py_range_rec: "py_range a b = (if a < b then a # py_range (a + 1) b else [])"
  unfolding py_range_def using upto.simps [of a "b - 1"] by simp

lemma py_range_three: "py_range (a - 1) (a + 2) = [a - 1, a, a + 1]"
proof -
  have "py_range (a - 1) (a + 2) = (a - 1) # py_range a (a + 2)"
    using py_range_rec [of "a - 1" "a + 2"] by simp
  also have "py_range a (a + 2) = a # py_range (a + 1) (a + 2)"
    using py_range_rec [of a "a + 2"] by simp
  also have "py_range (a + 1) (a + 2) = [a + 1]"
    by (simp add: py_range_def add.commute)
  finally show ?thesis .
qed

lemma set_py_range: "set (py_range a b) = {i. a \<le> i \<and> i < b}"
  by (auto simp: py_range_def)
lemma py_index_in_range:
  "0 \<le> i \<Longrightarrow> i < int (length xs) \<Longrightarrow> py_index xs i = Inr (xs ! nat i)"
  by (simp add: py_index_def py_len_def)

lemma py_store_in_range:
  "0 \<le> i \<Longrightarrow> i < int (length xs) \<Longrightarrow> py_store xs i v = Inr (xs[nat i := v])"
  by (simp add: py_store_def py_len_def)

lemma rectangular_first_row:
  "rectangular g \<Longrightarrow> py_index g 0 = Inr (hd g)"
  by (cases g) (simp_all add: rectangular_def py_index_def py_len_def)

lemma rectangular_row_length:
  "rectangular g \<Longrightarrow> i < length g \<Longrightarrow> length (g ! i) = length (hd g)"
  unfolding rectangular_def list_all_length by blast

lemma wrapped_cell_read:
  assumes "rectangular g"
  shows "0 \<le> r mod py_len g \<and> r mod py_len g < py_len g
       \<and> 0 \<le> c mod py_len (hd g) \<and> c mod py_len (hd g) < py_len (hd g)
       \<and> py_index g (r mod py_len g) = Inr (g ! nat (r mod py_len g))
       \<and> py_index (g ! nat (r mod py_len g)) (c mod py_len (hd g))
           = Inr (g ! nat (r mod py_len g) ! nat (c mod py_len (hd g)))"
proof -
  let ?rows = "py_len g" and ?cols = "py_len (hd g)"
  from assms have pos: "0 < ?rows" "0 < ?cols"
    by (simp_all add: rectangular_def py_len_def)
  then have wr: "0 \<le> r mod ?rows" "r mod ?rows < int (length g)"
    and wc: "0 \<le> c mod ?cols" "c mod ?cols < int (length (hd g))"
    by (simp_all add: py_len_def)
  from wr have "nat (r mod ?rows) < length g" by linarith
  with assms have len: "length (g ! nat (r mod ?rows)) = length (hd g)"
    by (rule rectangular_row_length)
  have row_read: "py_index g (r mod ?rows) = Inr (g ! nat (r mod ?rows))"
    using wr by (rule py_index_in_range)
  have cell_read: "py_index (g ! nat (r mod ?rows)) (c mod ?cols)
                     = Inr (g ! nat (r mod ?rows) ! nat (c mod ?cols))"
    using wc len by (simp add: py_index_in_range)
  from wr wc row_read cell_read show ?thesis
    by (simp add: py_len_def)
qed

lemma neighbor_visit_value:
  assumes "rectangular g"
  shows "neighbor_visit g (py_len g) (py_len (hd g)) row col r c n =
           Inr (if r = row \<and> c = col then n
                else n + live g (r mod py_len g) (c mod py_len (hd g)))"
proof -
  from assms have "py_len g \<noteq> 0" "py_len (hd g) \<noteq> 0"
    by (simp_all add: rectangular_def py_len_def)
  with wrapped_cell_read [OF assms, of r c] show ?thesis
    by (simp add: neighbor_visit_def py_mod_def live_def and_then_def)
qed

lemma count_alive_neighbors_value:
  assumes "rectangular g"
  shows "count_alive_neighbors g row col =
           Inr (\<Sum>(dr, dc) \<leftarrow> offsets8.
                  live g ((row + dr) mod py_len g) ((col + dc) mod py_len (hd g)))"
proof -
  define row_pass where
    "row_pass = (\<lambda>r. for_loop [col - 1, col, col + 1]
                   (neighbor_visit g (py_len g) (py_len (hd g)) row col r))"
  have inner: "row_pass r n =
          Inr (if r = row
               then n + live g (r mod py_len g) ((col - 1) mod py_len (hd g))
                      + live g (r mod py_len g) ((col + 1) mod py_len (hd g))
               else n + live g (r mod py_len g) ((col - 1) mod py_len (hd g))
                      + live g (r mod py_len g) (col mod py_len (hd g))
                      + live g (r mod py_len g) ((col + 1) mod py_len (hd g)))" for r n
    by (simp add: row_pass_def neighbor_visit_value [OF assms])
  have "count_alive_neighbors g row col = for_loop [row - 1, row, row + 1] row_pass 0"
    by (simp add: count_alive_neighbors_def rectangular_first_row [OF assms] py_range_three
        and_then_def Let_def row_pass_def)
  also have "\<dots> = Inr (\<Sum>(dr, dc) \<leftarrow> offsets8.
                  live g ((row + dr) mod py_len g) ((col + dc) mod py_len (hd g)))"
    by (simp add: inner offsets8_def)
  finally show ?thesis .
qed

lemma neighbor_offsets_list: "neighbor_offsets = set offsets8"
  unfolding neighbor_offsets_def offsets8_def by (simp add: insert_Diff_if)

lemma distinct_offsets8: "distinct offsets8"
  by (simp add: offsets8_def)

lemma card_filter_list:
  assumes "distinct xs"
  shows "int (card (Set.filter P (set xs))) = (\<Sum>x \<leftarrow> xs. if P x then 1 else 0)"
proof -
  have "Set.filter P (set xs) = set (filter P xs)"
    by auto
  moreover have "card (set (filter P xs)) = length (filter P xs)"
    by (rule distinct_card) (simp add: assms)
  moreover have "int (length (filter P xs)) = (\<Sum>x \<leftarrow> xs. if P x then 1 else 0)"
    by (induction xs) simp_all
  ultimately show ?thesis by (simp only:)
qed

lemma spec_live_neighbors_sum:
  "spec_live_neighbors g row col =
     (\<Sum>(dr, dc) \<leftarrow> offsets8. live g ((row + dr) mod py_len g) ((col + dc) mod py_len (hd g)))"
proof -
  have "spec_live_neighbors g row col =
          (\<Sum>x \<leftarrow> offsets8. if (case x of (dr, dc) \<Rightarrow>
              g ! nat ((row + dr) mod py_len g) ! nat ((col + dc) mod py_len (hd g)) = ALIVE)
            then 1 else 0)"
    unfolding spec_live_neighbors_def neighbor_offsets_list
    by (rule card_filter_list [OF distinct_offsets8])
  also have "\<dots> = (\<Sum>(dr, dc) \<leftarrow> offsets8.
                       live g ((row + dr) mod py_len g) ((col + dc) mod py_len (hd g)))"
    by (simp add: offsets8_def live_def)
  finally show ?thesis .
qed

lemma for_loop_invariant:
  assumes init: "I [] s"
    and step: "\<And>seen x t. I seen t \<Longrightarrow> x \<in> set xs \<Longrightarrow> \<exists>t'. body x t = Inr t' \<and> I (seen @ [x]) t'"
  shows "\<exists>s'. for_loop xs body s = Inr s' \<and> I xs s'"
proof -
  have gen: "\<exists>s'. for_loop ys body s = Inr s' \<and> I (seen @ ys) s'"
    if "I seen s" and "set ys \<subseteq> set xs" for seen ys s
    using that
  proof (induction ys arbitrary: seen s)
    case Nil
    then show ?case by simp
  next
    case (Cons y ys)
    from Cons.prems have "\<exists>t'. body y s = Inr t' \<and> I (seen @ [y]) t'"
      by (intro step) simp_all
    then obtain t' where t': "body y s = Inr t'" "I (seen @ [y]) t'"
      by blast
    from Cons.prems have "set ys \<subseteq> set xs"
      by simp
    with t'(2) have "\<exists>s'. for_loop ys body t' = Inr s' \<and> I ((seen @ [y]) @ ys) s'"
      by (rule Cons.IH)
    with t'(1) show ?case by simp
  qed
  from gen [of "[]" s xs] init show ?thesis by simp
qed

lemma for_loop_preserves:
  assumes "for_loop xs body s = Inr s'" and "P s"
    and "\<And>x t t'. P t \<Longrightarrow> body x t = Inr t' \<Longrightarrow> P t'"
  shows "P s'"
  using assms(1,2)
proof (induction xs arbitrary: s)
  case Nil
  then show ?case by simp
next
  case (Cons x xs)
  then show ?case
    by (auto split: sum.splits intro: assms(3))
qed

lemma count_alive_neighbors_succeeds:
  "rectangular g \<Longrightarrow> \<exists>n. count_alive_neighbors g row col = Inr n"
  by (simp add: count_alive_neighbors_value)

lemma determine_cell_state_value:
  assumes "rectangular g" and "0 \<le> row" and "row < py_len g"
    and "0 \<le> col" and "col < py_len (hd g)"
    and "count_alive_neighbors g row col = Inr n"
  shows "determine_cell_state g row col =
           Inr (if g ! nat row ! nat col = ALIVE
                then (if n = 2 \<or> n = 3 \<or> n = 4 then ALIVE else DEAD)
                else (if 0 < n \<and> even n then ALIVE else DEAD))"
proof -
  from assms(2,3) have "nat row < length g"
    by (simp add: py_len_def)
  with assms(1) have "length (g ! nat row) = length (hd g)"
    by (rule rectangular_row_length)
  with assms(4,5) have "py_index (g ! nat row) col = Inr (g ! nat row ! nat col)"
    by (simp add: py_index_in_range py_len_def)
  moreover from assms(2,3) have "py_index g row = Inr (g ! nat row)"
    by (simp add: py_index_in_range py_len_def)
  ultimately show ?thesis
    using assms(6) by (simp add: determine_cell_state_def and_then_def even_iff_mod_2_eq_zero)
qed

lemma determine_cell_state_succeeds:
  assumes "rectangular g" and "0 \<le> row" and "row < py_len g"
    and "0 \<le> col" and "col < py_len (hd g)"
  shows "\<exists>v. determine_cell_state g row col = Inr v"
proof -
  from assms(1) obtain n where "count_alive_neighbors g row col = Inr n"
    using count_alive_neighbors_succeeds by blast
  with assms show ?thesis
    by (simp add: determine_cell_state_value)
qed

lemma assign_cell_value:
  assumes "determine_cell_state g row col = Inr v"
    and "0 \<le> row" and "row < int (length nm)"
    and "0 \<le> col" and "col < int (length (nm ! nat row))"
  shows "assign_cell g row col nm = Inr (nm[nat row := (nm ! nat row)[nat col := v]])"
  using assms by (simp add: assign_cell_def and_then_def py_index_in_range py_store_in_range)

section \<open>The loops of the transition engine\<close>

lemma fill_row:
  assumes rect: "rectangular g" and row: "0 \<le> row" "row < py_len g"
    and len: "length nm = length g"
    and wid: "\<forall>r < length g. length (nm ! r) = length (hd g)"
  shows "\<exists>nm'. for_loop (py_range 0 (py_len (hd g))) (\<lambda>col. assign_cell g row col) nm = Inr nm'
           \<and> length nm' = length g
           \<and> (\<forall>r < length g. length (nm' ! r) = length (hd g))
           \<and> (\<forall>r < length g. r \<noteq> nat row \<longrightarrow> nm' ! r = nm ! r)
           \<and> (\<forall>c < length (hd g). determine_cell_state g row (int c) = Inr (nm' ! nat row ! c))"
proof -
  define I where "I = (\<lambda>seen t.
      length t = length g
    \<and> (\<forall>r < length g. length (t ! r) = length (hd g))
    \<and> (\<forall>r < length g. r \<noteq> nat row \<longrightarrow> t ! r = nm ! r)
    \<and> (\<forall>c \<in> set seen. 0 \<le> c \<and> determine_cell_state g row c = Inr (t ! nat row ! nat c)))"
  from row have in_rows: "nat row < length g"
    by (simp add: py_len_def)
  have init: "I [] nm"
    using len wid by (simp add: I_def)
  have step: "\<exists>t'. assign_cell g row x t = Inr t' \<and> I (seen @ [x]) t'"
    if inv: "I seen t" and x: "x \<in> set (py_range 0 (py_len (hd g)))" for seen x t
  proof -
    from x have xr: "0 \<le> x" "x < py_len (hd g)"
      by (simp_all add: set_py_range)
    with rect row obtain v where v: "determine_cell_state g row x = Inr v"
      using determine_cell_state_succeeds by blast
    from inv have t_len: "length t = length g"
      and t_wid: "\<forall>r < length g. length (t ! r) = length (hd g)"
      and t_rest: "\<forall>r < length g. r \<noteq> nat row \<longrightarrow> t ! r = nm ! r"
      and t_seen: "\<forall>c \<in> set seen. 0 \<le> c \<and> determine_cell_state g row c = Inr (t ! nat row ! nat c)"
      by (simp_all add: I_def)
    from t_wid in_rows have row_wid: "length (t ! nat row) = length (hd g)"
      by simp
    let ?t' = "t[nat row := (t ! nat row)[nat x := v]]"
    have run: "assign_cell g row x t = Inr ?t'"
      using v row xr t_len row_wid by (simp add: assign_cell_value py_len_def)
    have new_row: "?t' ! nat row = (t ! nat row)[nat x := v]"
      using in_rows t_len by simp
    have "length ?t' = length g"
      using t_len by simp
    moreover have "\<forall>r < length g. length (?t' ! r) = length (hd g)"
      using t_wid t_len in_rows by (auto simp: nth_list_update)
    moreover have "\<forall>r < length g. r \<noteq> nat row \<longrightarrow> ?t' ! r = nm ! r"
      using t_rest by simp
    moreover have "\<forall>c \<in> set (seen @ [x]).
        0 \<le> c \<and> determine_cell_state g row c = Inr (?t' ! nat row ! nat c)"
    proof
      fix c assume "c \<in> set (seen @ [x])"
      then consider "c = x" | "c \<in> set seen" "c \<noteq> x" by auto
      then show "0 \<le> c \<and> determine_cell_state g row c = Inr (?t' ! nat row ! nat c)"
      proof cases
        case 1
        with xr row_wid v show ?thesis
          by (simp add: new_row py_len_def)
      next
        case 2
        with t_seen have c: "0 \<le> c" "determine_cell_state g row c = Inr (t ! nat row ! nat c)"
          by simp_all
        from c(1) xr(1) 2(2) have "nat x \<noteq> nat c" by simp
        with c show ?thesis by (simp add: new_row)
      qed
    qed
    ultimately have "I (seen @ [x]) ?t'"
      unfolding I_def by blast
    with run show ?thesis by blast
  qed
  from for_loop_invariant [of I nm "py_range 0 (py_len (hd g))" "\<lambda>col. assign_cell g row col",
      OF init step]
  obtain nm' where run: "for_loop (py_range 0 (py_len (hd g))) (\<lambda>col. assign_cell g row col) nm = Inr nm'"
    and fin: "I (py_range 0 (py_len (hd g))) nm'"
    by blast
  have "\<forall>c < length (hd g). determine_cell_state g row (int c) = Inr (nm' ! nat row ! c)"
  proof (intro allI impI)
    fix c assume "c < length (hd g)"
    then have "int c \<in> set (py_range 0 (py_len (hd g)))"
      by (simp add: set_py_range py_len_def)
    with fin show "determine_cell_state g row (int c) = Inr (nm' ! nat row ! c)"
      unfolding I_def by fastforce
  qed
  with run fin show ?thesis
    unfolding I_def by blast
qed

lemma step_matrix_cells:
  assumes rect: "rectangular g"
  shows "\<exists>g'. step_matrix g = Inr g'
           \<and> length g' = length g
           \<and> (\<forall>r < length g. length (g' ! r) = length (hd g)
                \<and> (\<forall>c < length (hd g).
                      determine_cell_state g (int r) (int c) = Inr (g' ! r ! c)))"
proof -
  let ?blank = "replicate (length g) (replicate (length (hd g)) DEAD)"
  define J where "J = (\<lambda>seen t.
      length t = length g
    \<and> (\<forall>r < length g. length (t ! r) = length (hd g))
    \<and> (\<forall>r \<in> set seen. 0 \<le> r \<and>
          (\<forall>c < length (hd g). determine_cell_state g r (int c) = Inr (t ! nat r ! c))))"
  have init: "J [] ?blank"
    by (simp add: J_def)
  have step: "\<exists>t'. for_loop (py_range 0 (py_len (hd g))) (\<lambda>col. assign_cell g x col) t = Inr t'
                 \<and> J (seen @ [x]) t'"
    if inv: "J seen t" and x: "x \<in> set (py_range 0 (py_len g))" for seen x t
  proof -
    from x have xr: "0 \<le> x" "x < py_len g"
      by (simp_all add: set_py_range)
    from inv have t_len: "length t = length g"
      and t_wid: "\<forall>r < length g. length (t ! r) = length (hd g)"
      and t_seen: "\<forall>r \<in> set seen. 0 \<le> r \<and>
          (\<forall>c < length (hd g). determine_cell_state g r (int c) = Inr (t ! nat r ! c))"
      by (simp_all add: J_def)
    from fill_row [OF rect xr t_len t_wid] obtain t'
      where run: "for_loop (py_range 0 (py_len (hd g))) (\<lambda>col. assign_cell g x col) t = Inr t'"
        and len': "length t' = length g"
        and wid': "\<forall>r < length g. length (t' ! r) = length (hd g)"
        and rest': "\<forall>r < length g. r \<noteq> nat x \<longrightarrow> t' ! r = t ! r"
        and row': "\<forall>c < length (hd g). determine_cell_state g x (int c) = Inr (t' ! nat x ! c)"
      by blast
    have "\<forall>r \<in> set (seen @ [x]). 0 \<le> r \<and>
          (\<forall>c < length (hd g). determine_cell_state g r (int c) = Inr (t' ! nat r ! c))"
    proof
      fix r assume "r \<in> set (seen @ [x])"
      then consider "r = x" | "r \<in> set seen" "r \<noteq> x" by auto
      then show "0 \<le> r \<and>
          (\<forall>c < length (hd g). determine_cell_state g r (int c) = Inr (t' ! nat r ! c))"
      proof cases
        case 1
        with xr row' show ?thesis by simp
      next
        case 2
        with t_seen have r: "0 \<le> r"
          "\<forall>c < length (hd g). determine_cell_state g r (int c) = Inr (t ! nat r ! c)"
          by simp_all
        show ?thesis
        proof (cases "nat r < length g")
          case True
          from r(1) xr(1) 2(2) have "nat r \<noteq> nat x" by simp
          with True rest' have "t' ! nat r = t ! nat r" by simp
          with r show ?thesis by simp
        next
          case False
          obtain c where "c < length (hd g)"
            using rect by (auto simp: rectangular_def)
          with r(2) have "\<exists>v. determine_cell_state g r (int c) = Inr v" by simp
          moreover have "py_index g r = Inl IndexError"
            using False r(1) by (simp add: py_index_def py_len_def)
          moreover obtain n where "count_alive_neighbors g r (int c) = Inr n"
            using count_alive_neighbors_succeeds [OF rect] by blast
          ultimately show ?thesis
            by (simp add: determine_cell_state_def and_then_def)
        qed
      qed
    qed
    with len' wid' have "J (seen @ [x]) t'"
      unfolding J_def by blast
    with run show ?thesis by blast
  qed
  from for_loop_invariant [of J ?blank "py_range 0 (py_len g)"
      "\<lambda>row. for_loop (py_range 0 (py_len (hd g))) (\<lambda>col. assign_cell g row col)",
      OF init step]
  obtain g' where run: "for_loop (py_range 0 (py_len g))
        (\<lambda>row. for_loop (py_range 0 (py_len (hd g))) (\<lambda>col. assign_cell g row col)) ?blank = Inr g'"
    and fin: "J (py_range 0 (py_len g)) g'"
    by blast
  have "step_matrix g = Inr g'"
    using run by (simp add: step_matrix_def rectangular_first_row [OF rect] and_then_def Let_def
        py_len_def)
  moreover have "length g' = length g"
    using fin by (simp add: J_def)
  moreover have "\<forall>r < length g. length (g' ! r) = length (hd g)
                \<and> (\<forall>c < length (hd g).
                      determine_cell_state g (int r) (int c) = Inr (g' ! r ! c))"
  proof (intro allI impI)
    fix r assume r: "r < length g"
    then have "int r \<in> set (py_range 0 (py_len g))"
      by (simp add: set_py_range py_len_def)
    with fin r show "length (g' ! r) = length (hd g)
                \<and> (\<forall>c < length (hd g).
                      determine_cell_state g (int r) (int c) = Inr (g' ! r ! c))"
      unfolding J_def by fastforce
  qed
  ultimately show ?thesis by blast
qed

section \<open>Dead grids, the two cell states and cells read as dead\<close>

lemma torus_sum_range:
  "0 \<le> (\<Sum>(dr, dc) \<leftarrow> offsets8. live g (f dr) (h dc))
   \<and> (\<Sum>(dr, dc) \<leftarrow> offsets8. live g (f dr) (h dc)) \<le> 8"
proof -
  have "0 \<le> live g r c" "live g r c \<le> 1" for r c
    by (simp_all add: live_def)
  note b = this
  show ?thesis
    unfolding offsets8_def
    using b [of "f (-1)" "h (-1)"] b [of "f (-1)" "h 0"] b [of "f (-1)" "h 1"]
      b [of "f 0" "h (-1)"] b [of "f 0" "h 1"]
      b [of "f 1" "h (-1)"] b [of "f 1" "h 0"] b [of "f 1" "h 1"]
    by simp
qed

lemma dead_is_not_alive: "DEAD \<noteq> ALIVE"
  by (simp add: DEAD_def ALIVE_def)

lemma all_dead_cell:
  assumes "all_dead g" and "r < length g" and "c < length (g ! r)"
  shows "g ! r ! c = DEAD"
  using assms unfolding all_dead_def list_all_length by blast

lemma all_dead_live:
  assumes rect: "rectangular g" and dead: "all_dead g"
  shows "live g (r mod py_len g) (c mod py_len (hd g)) = 0"
proof -
  from rect have pos: "0 < py_len g" "0 < py_len (hd g)"
    by (simp_all add: rectangular_def py_len_def)
  then have "0 \<le> r mod py_len g" "r mod py_len g < int (length g)"
    by (simp_all add: py_len_def)
  then have r: "nat (r mod py_len g) < length g"
    by linarith
  with rect have "length (g ! nat (r mod py_len g)) = length (hd g)"
    by (rule rectangular_row_length)
  moreover from pos have "0 \<le> c mod py_len (hd g)" "c mod py_len (hd g) < int (length (hd g))"
    by (simp_all add: py_len_def)
  ultimately have "nat (c mod py_len (hd g)) < length (g ! nat (r mod py_len g))"
    by linarith
  with dead r have "g ! nat (r mod py_len g) ! nat (c mod py_len (hd g)) = DEAD"
    by (rule all_dead_cell)
  then show ?thesis
    by (simp add: live_def dead_is_not_alive)
qed

lemma all_dead_count:
  assumes "rectangular g" and "all_dead g"
  shows "count_alive_neighbors g row col = Inr 0"
  by (simp add: count_alive_neighbors_value [OF assms(1)] offsets8_def all_dead_live [OF assms])

lemma determine_cell_state_two_valued:
  "determine_cell_state g row col = Inr v \<Longrightarrow> v = ALIVE \<or> v = DEAD"
  by (auto simp: determine_cell_state_def and_then_def split: sum.splits if_splits)

lemma py_index_member: "py_index xs i = Inr x \<Longrightarrow> x \<in> set xs"
  by (auto simp: py_index_def py_len_def split: if_splits)

lemma py_store_list_all:
  "py_store xs i v = Inr ys \<Longrightarrow> list_all P xs \<Longrightarrow> P v \<Longrightarrow> list_all P ys"
  by (auto simp: py_store_def list_all_iff split: if_splits dest: set_update_subset_insert [THEN subsetD])

lemma assign_cell_two_valued:
  assumes "assign_cell g row col t = Inr t'" and "two_valued t"
  shows "two_valued t'"
proof -
  from assms(1) obtain v line line'
    where v: "determine_cell_state g row col = Inr v"
      and line: "py_index t row = Inr line"
      and line': "py_store line col v = Inr line'"
      and t': "py_store t row line' = Inr t'"
    by (auto simp: assign_cell_def and_then_def split: sum.splits)
  from line have "line \<in> set t"
    by (rule py_index_member)
  with assms(2) have "list_all (\<lambda>v. v = ALIVE \<or> v = DEAD) line"
    by (simp add: two_valued_def list_all_iff)
  with line' have "list_all (\<lambda>v. v = ALIVE \<or> v = DEAD) line'"
    using determine_cell_state_two_valued [OF v] by (rule py_store_list_all)
  with t' assms(2) show ?thesis
    unfolding two_valued_def by (rule py_store_list_all)
qed

lemma step_matrix_two_valued:
  assumes "step_matrix g = Inr g'"
  shows "two_valued g'"
proof (cases "py_index g 0")
  case (Inl e)
  with assms show ?thesis
    by (simp add: step_matrix_def and_then_def)
next
  case (Inr first_row)
  with assms have
    run: "for_loop (py_range 0 (py_len g))
            (\<lambda>row. for_loop (py_range 0 (py_len first_row)) (\<lambda>col. assign_cell g row col))
            (replicate (nat (py_len g)) (replicate (nat (py_len first_row)) DEAD)) = Inr g'"
    by (simp add: step_matrix_def and_then_def Let_def)
  have blank: "two_valued (replicate m (replicate k DEAD))" for m k
    by (simp add: two_valued_def list_all_iff)
  have row_pass: "two_valued t'"
    if "two_valued t"
      and "for_loop (py_range 0 (py_len first_row)) (\<lambda>col. assign_cell g row col) t = Inr t'"
    for row t t'
    using that(2,1) by (rule for_loop_preserves) (rule assign_cell_two_valued)
  from run blank show ?thesis
    by (rule for_loop_preserves) (rule row_pass)
qed

lemma py_len_map: "py_len (map f xs) = py_len xs"
  by (simp add: py_len_def)

lemma py_index_map:
  "py_index (map f xs) i = (case py_index xs i of Inl e \<Rightarrow> Inl e | Inr x \<Rightarrow> Inr (f x))"
proof -
  have "nat (int (length xs) + i) < length xs" if "- int (length xs) \<le> i" and "i < 0"
    using that by linarith
  moreover have "nat i < length xs" if "0 \<le> i" and "i < int (length xs)"
    using that by linarith
  ultimately show ?thesis
    by (simp add: py_index_def py_len_def)
qed

lemma as_dead_alive: "as_dead v = ALIVE \<longleftrightarrow> v = ALIVE"
  by (simp add: as_dead_def dead_is_not_alive)

lemma neighbor_visit_as_dead:
  "neighbor_visit (map (map as_dead) g) rows cols row col r
     = neighbor_visit g rows cols row col r"
  by (rule ext, rule ext)
    (simp add: neighbor_visit_def and_then_def py_index_map as_dead_alive split: sum.splits)

lemma count_alive_neighbors_as_dead:
  "count_alive_neighbors (map (map as_dead) g) row col = count_alive_neighbors g row col"
  by (simp add: count_alive_neighbors_def and_then_def py_index_map py_len_map
      neighbor_visit_as_dead Let_def split: sum.splits)

lemma determine_cell_state_as_dead:
  "determine_cell_state (map (map as_dead) g) row col = determine_cell_state g row col"
  by (simp add: determine_cell_state_def and_then_def count_alive_neighbors_as_dead
      py_index_map as_dead_alive split: sum.splits)

lemma assign_cell_as_dead:
  "assign_cell (map (map as_dead) g) row col = assign_cell g row col"
  by (rule ext) (simp add: assign_cell_def determine_cell_state_as_dead)

lemma step_matrix_as_dead:
  "step_matrix (map (map as_dead) g) = step_matrix g"
  by (simp add: step_matrix_def and_then_def py_index_map py_len_map assign_cell_as_dead
      Let_def split: sum.splits)

section \<open>The claims of the specification\<close>

text \<open>
  Claim C1. On a rectangular grid with at least one row and one column, \<^verbatim>\<open>step_matrix\<close>
  returns a grid whose cell at any in-bounds \<open>(row, col)\<close> is decided by the input grid alone:
  with \<open>n\<close> the live-neighbour count of that cell in the input, a cell that was alive is
  alive exactly when \<open>n\<close> is 2, 3 or 4, and any other cell (a dead one in particular, since
  \<^verbatim>\<open>'.'\<close> differs from \<^verbatim>\<open>'O'\<close>) is alive exactly when \<open>n\<close> is positive and even; in
  every other case the cell is dead.
\<close>

theorem step_applies_rule_to_snapshot:
  assumes "rectangular g" and "0 \<le> row" and "row < py_len g"
    and "0 \<le> col" and "col < py_len (hd g)"
  shows "\<exists>g' n. step_matrix g = Inr g'
           \<and> count_alive_neighbors g row col = Inr n
           \<and> g' ! nat row ! nat col =
               (if g ! nat row ! nat col = ALIVE
                then (if n \<in> {2, 3, 4} then ALIVE else DEAD)
                else (if 0 < n \<and> even n then ALIVE else DEAD))"
proof -
  from step_matrix_cells [OF assms(1)] obtain g' where run: "step_matrix g = Inr g'"
    and cells: "\<forall>r < length g. length (g' ! r) = length (hd g)
                \<and> (\<forall>c < length (hd g).
                      determine_cell_state g (int r) (int c) = Inr (g' ! r ! c))"
    by blast
  from assms(2-5) have "nat row < length g" "nat col < length (hd g)"
    by (simp_all add: py_len_def)
  with cells assms(2,4) have next_cell: "determine_cell_state g row col = Inr (g' ! nat row ! nat col)"
    by fastforce
  from assms(1) obtain n where n: "count_alive_neighbors g row col = Inr n"
    using count_alive_neighbors_succeeds by blast
  from determine_cell_state_value [OF assms n] next_cell
  have "g' ! nat row ! nat col =
               (if g ! nat row ! nat col = ALIVE
                then (if n \<in> {2, 3, 4} then ALIVE else DEAD)
                else (if 0 < n \<and> even n then ALIVE else DEAD))"
    by simp
  with run n show ?thesis by blast
qed

theorem step_applies_rule_to_snapshot_witness:
  "rectangular top_row_alive \<and> (0::int) \<le> 1 \<and> 1 < py_len top_row_alive
   \<and> (0::int) \<le> 2 \<and> 2 < py_len (hd top_row_alive)
   \<and> (\<exists>g' n. step_matrix top_row_alive = Inr g'
           \<and> count_alive_neighbors top_row_alive 1 2 = Inr n
           \<and> g' ! nat 1 ! nat 2 =
               (if top_row_alive ! nat 1 ! nat 2 = ALIVE
                then (if n \<in> {2, 3, 4} then ALIVE else DEAD)
                else (if 0 < n \<and> even n then ALIVE else DEAD)))"
proof -
  have h1: "rectangular top_row_alive"
    by (simp add: rectangular_def top_row_alive_def)
  have h2: "(0::int) \<le> 1" and h3: "1 < py_len top_row_alive"
    and h4: "(0::int) \<le> 2" and h5: "2 < py_len (hd top_row_alive)"
    by (simp_all add: py_len_def top_row_alive_def)
  from step_applies_rule_to_snapshot [OF h1 h2 h3 h4 h5] h1 h2 h3 h4 h5
  show ?thesis by blast
qed

text \<open>
  Claim C2. On a rectangular grid and an in-bounds coordinate,
  \<^verbatim>\<open>count_alive_neighbors\<close> returns the number of offsets \<open>(dr, dc)\<close> among the eight of
  \<open>{-1, 0, 1} \<times> {-1, 0, 1}\<close> other than \<open>(0, 0)\<close> whose wrapped cell
  \<open>((row + dr) mod rows, (col + dc) mod cols)\<close> is alive. Each coordinate is wrapped on its
  own by \<^verbatim>\<open>%\<close>, whose result lies in \<open>[0, rows)\<close> (in \<open>[0, cols)\<close>) for every offset, a
  negative intermediate value included. The function is a function of the grid and the
  coordinate only: it returns a value and writes nothing.
\<close>

theorem count_alive_neighbors_is_torus_count:
  assumes "rectangular g" and "0 \<le> row" and "row < py_len g"
    and "0 \<le> col" and "col < py_len (hd g)"
  shows "count_alive_neighbors g row col = Inr (spec_live_neighbors g row col)
       \<and> (\<exists>wrapped_r wrapped_c.
             py_mod (row + dr) (py_len g) = Inr wrapped_r
           \<and> 0 \<le> wrapped_r \<and> wrapped_r < py_len g
           \<and> py_mod (col + dc) (py_len (hd g)) = Inr wrapped_c
           \<and> 0 \<le> wrapped_c \<and> wrapped_c < py_len (hd g))"
proof -
  from assms(1) have "0 < py_len g" "0 < py_len (hd g)"
    by (simp_all add: rectangular_def py_len_def)
  then have "\<exists>wrapped_r wrapped_c.
             py_mod (row + dr) (py_len g) = Inr wrapped_r
           \<and> 0 \<le> wrapped_r \<and> wrapped_r < py_len g
           \<and> py_mod (col + dc) (py_len (hd g)) = Inr wrapped_c
           \<and> 0 \<le> wrapped_c \<and> wrapped_c < py_len (hd g)"
    by (simp add: py_mod_def)
  moreover have "count_alive_neighbors g row col = Inr (spec_live_neighbors g row col)"
    by (simp only: count_alive_neighbors_value [OF assms(1)] spec_live_neighbors_sum)
  ultimately show ?thesis by blast
qed

theorem count_alive_neighbors_is_torus_count_witness:
  "rectangular top_row_alive \<and> (0::int) \<le> 0 \<and> 0 < py_len top_row_alive
   \<and> (0::int) \<le> 0 \<and> 0 < py_len (hd top_row_alive)
   \<and> count_alive_neighbors top_row_alive 0 0 = Inr (spec_live_neighbors top_row_alive 0 0)
   \<and> spec_live_neighbors top_row_alive 0 0 = 2
   \<and> py_mod (0 + (-1)) (py_len top_row_alive) = Inr 2"
proof -
  have h1: "rectangular top_row_alive"
    by (simp add: rectangular_def top_row_alive_def)
  have h2: "(0::int) \<le> 0" and h3: "0 < py_len top_row_alive"
    and h5: "0 < py_len (hd top_row_alive)"
    by (simp_all add: py_len_def top_row_alive_def)
  have v: "spec_live_neighbors top_row_alive 0 0 = 2"
    by (simp add: spec_live_neighbors_sum offsets8_def live_def py_len_def top_row_alive_def
        ALIVE_def)
  have m: "py_mod (0 + (-1)) (py_len top_row_alive) = Inr 2"
    by (simp add: py_mod_def py_len_def top_row_alive_def)
  from count_alive_neighbors_is_torus_count [OF h1 h2 h3 h2 h5] h1 h2 h3 h5 v m
  show ?thesis by blast
qed

text \<open>
  Claim C3. On a rectangular grid, \<^verbatim>\<open>step_matrix\<close> returns a grid with the same number
  of rows and the same number of columns, and the returned grid is rectangular again.
\<close>

theorem step_matrix_preserves_shape:
  assumes "rectangular g"
  shows "\<exists>g'. step_matrix g = Inr g'
           \<and> length g' = length g
           \<and> length (hd g') = length (hd g)
           \<and> rectangular g'"
proof -
  from step_matrix_cells [OF assms] obtain g' where run: "step_matrix g = Inr g'"
    and len: "length g' = length g"
    and wid: "\<forall>r < length g. length (g' ! r) = length (hd g)"
    by blast
  from assms have ne: "g \<noteq> []" "hd g \<noteq> []"
    by (simp_all add: rectangular_def)
  with len have ne': "g' \<noteq> []"
    by auto
  then have "hd g' = g' ! 0"
    by (simp add: hd_conv_nth)
  with wid ne have hd_len: "length (hd g') = length (hd g)"
    by simp
  with ne have "hd g' \<noteq> []"
    by auto
  moreover have "list_all (\<lambda>line. length line = length (hd g')) g'"
    using wid len hd_len by (simp add: list_all_length)
  ultimately have "rectangular g'"
    using ne' by (simp add: rectangular_def)
  with run len hd_len show ?thesis by blast
qed

theorem step_matrix_preserves_shape_witness:
  "rectangular top_row_alive
   \<and> (\<exists>g'. step_matrix top_row_alive = Inr g'
           \<and> length g' = length top_row_alive
           \<and> length (hd g') = length (hd top_row_alive)
           \<and> rectangular g')"
proof -
  have h1: "rectangular top_row_alive"
    by (simp add: rectangular_def top_row_alive_def)
  from step_matrix_preserves_shape [OF h1] h1 show ?thesis by blast
qed

text \<open>
  Claim C4. With a single row, the row offsets \<open>-1\<close> and \<open>1\<close> both wrap to row 0, so
  the count at \<open>(0, col)\<close> is twice the cell itself (the offsets \<open>(-1, 0)\<close> and \<open>(1, 0)\<close>)
  plus three times each of its wrapped left and right neighbours; nothing but the modulo
  arithmetic is involved. The same holds with a single column, rows and columns exchanged.
  On the 1 by 1 grid whose cell is alive the count is 8.
\<close>

theorem degenerate_grid_counts_itself:
  "(rectangular g \<and> py_len g = 1 \<and> 0 \<le> col \<and> col < py_len (hd g) \<longrightarrow>
        py_mod (0 - 1) (py_len g) = Inr 0 \<and> py_mod (0 + 1) (py_len g) = Inr 0
      \<and> count_alive_neighbors g 0 col =
          Inr (2 * live g 0 col
               + 3 * live g 0 ((col - 1) mod py_len (hd g))
               + 3 * live g 0 ((col + 1) mod py_len (hd g))))
   \<and> (rectangular g \<and> py_len (hd g) = 1 \<and> 0 \<le> row \<and> row < py_len g \<longrightarrow>
        py_mod (0 - 1) (py_len (hd g)) = Inr 0 \<and> py_mod (0 + 1) (py_len (hd g)) = Inr 0
      \<and> count_alive_neighbors g row 0 =
          Inr (2 * live g row 0
               + 3 * live g ((row - 1) mod py_len g) 0
               + 3 * live g ((row + 1) mod py_len g) 0))
   \<and> count_alive_neighbors [[ALIVE]] 0 0 = Inr 8"
proof (intro conjI impI)
  assume a: "rectangular g \<and> py_len g = 1 \<and> 0 \<le> col \<and> col < py_len (hd g)"
  then show "py_mod (0 - 1) (py_len g) = Inr 0" and "py_mod (0 + 1) (py_len g) = Inr 0"
    by (simp_all add: py_mod_def)
  from a have "col mod py_len (hd g) = col"
    by simp
  with a show "count_alive_neighbors g 0 col =
          Inr (2 * live g 0 col
               + 3 * live g 0 ((col - 1) mod py_len (hd g))
               + 3 * live g 0 ((col + 1) mod py_len (hd g)))"
    by (simp add: count_alive_neighbors_value offsets8_def)
next
  assume a: "rectangular g \<and> py_len (hd g) = 1 \<and> 0 \<le> row \<and> row < py_len g"
  then show "py_mod (0 - 1) (py_len (hd g)) = Inr 0" and "py_mod (0 + 1) (py_len (hd g)) = Inr 0"
    by (simp_all add: py_mod_def)
  from a have "row mod py_len g = row"
    by simp
  with a show "count_alive_neighbors g row 0 =
          Inr (2 * live g row 0
               + 3 * live g ((row - 1) mod py_len g) 0
               + 3 * live g ((row + 1) mod py_len g) 0)"
    by (simp add: count_alive_neighbors_value offsets8_def)
next
  have "rectangular [[ALIVE]]"
    by (simp add: rectangular_def)
  then show "count_alive_neighbors [[ALIVE]] 0 0 = Inr 8"
    by (simp add: count_alive_neighbors_value offsets8_def live_def py_len_def)
qed

theorem degenerate_grid_counts_itself_witness:
  "rectangular [[''O'', ''.'', ''O'']] \<and> py_len [[''O'', ''.'', ''O'']] = 1
   \<and> (0::int) \<le> 0 \<and> 0 < py_len (hd [[''O'', ''.'', ''O'']])
   \<and> count_alive_neighbors [[''O'', ''.'', ''O'']] 0 0 = Inr 5
   \<and> rectangular [[''O''], [''.''], [''O'']] \<and> py_len (hd [[''O''], [''.''], [''O'']]) = 1
   \<and> (0::int) \<le> 1 \<and> 1 < py_len [[''O''], [''.''], [''O'']]
   \<and> count_alive_neighbors [[''O''], [''.''], [''O'']] 1 0 = Inr 6"
proof -
  let ?wide = "[[''O'', ''.'', ''O'']]" and ?tall = "[[''O''], [''.''], [''O'']]"
  have w: "rectangular ?wide \<and> py_len ?wide = 1 \<and> (0::int) \<le> 0 \<and> 0 < py_len (hd ?wide)"
    by (simp add: rectangular_def py_len_def)
  have t: "rectangular ?tall \<and> py_len (hd ?tall) = 1 \<and> (0::int) \<le> 1 \<and> 1 < py_len ?tall"
    by (simp add: rectangular_def py_len_def)
  from degenerate_grid_counts_itself [of ?wide 0 0] w
  have "count_alive_neighbors ?wide 0 0 = Inr 5"
    by (simp add: live_def py_len_def ALIVE_def)
  moreover from degenerate_grid_counts_itself [of ?tall 0 1] t
  have "count_alive_neighbors ?tall 1 0 = Inr 6"
    by (simp add: live_def py_len_def ALIVE_def)
  ultimately show ?thesis
    using w t by blast
qed

text \<open>
  Claim C5. In the 3 by 3 grid whose only live cell is \<open>(0, 0)\<close>, the cell \<open>(2, 2)\<close> has
  exactly one live neighbour: its offset \<open>(1, 1)\<close> wraps around to \<open>(0, 0)\<close>.
\<close>

theorem corner_wraps_to_opposite_corner:
  "count_alive_neighbors
     [[''O'', ''.'', ''.''], [''.'', ''.'', ''.''], [''.'', ''.'', ''.'']] 2 2 = Inr 1"
  by (simp add: count_alive_neighbors_def py_range_rec neighbor_visit_def py_mod_def
      py_index_def py_len_def and_then_def ALIVE_def)

text \<open>
  Claim C6. The 3 by 3 grid whose row 0 is alive and whose rows 1 and 2 are dead is
  mapped to itself by one step: every cell of row 0 has two live neighbours and survives,
  every cell of rows 1 and 2 has three, an odd number, and stays dead.
\<close>

theorem top_row_alive_is_fixed_point:
  "step_matrix top_row_alive = Inr top_row_alive
   \<and> map (\<lambda>c. count_alive_neighbors top_row_alive 0 c) [0, 1, 2] = [Inr 2, Inr 2, Inr 2]
   \<and> map (\<lambda>c. count_alive_neighbors top_row_alive 1 c) [0, 1, 2] = [Inr 3, Inr 3, Inr 3]
   \<and> map (\<lambda>c. count_alive_neighbors top_row_alive 2 c) [0, 1, 2] = [Inr 3, Inr 3, Inr 3]"
  by code_simp

text \<open>
  Claim C7. A rectangular grid all of whose cells are dead is mapped to itself by
  \<^verbatim>\<open>step_matrix\<close>, and every live-neighbour count in it is 0.
\<close>

theorem all_dead_is_fixed_point:
  assumes "rectangular g" and "all_dead g"
  shows "step_matrix g = Inr g \<and> count_alive_neighbors g row col = Inr 0"
proof -
  from step_matrix_cells [OF assms(1)] obtain g' where run: "step_matrix g = Inr g'"
    and len: "length g' = length g"
    and cells: "\<forall>r < length g. length (g' ! r) = length (hd g)
                \<and> (\<forall>c < length (hd g).
                      determine_cell_state g (int r) (int c) = Inr (g' ! r ! c))"
    by blast
  have "g' ! r = g ! r" if r: "r < length g" for r
  proof (rule nth_equalityI)
    from assms(1) r have wid: "length (g ! r) = length (hd g)"
      by (rule rectangular_row_length)
    with cells r show "length (g' ! r) = length (g ! r)"
      by simp
    fix c assume "c < length (g' ! r)"
    with cells r have c: "c < length (hd g)"
      by simp
    with cells r have "determine_cell_state g (int r) (int c) = Inr (g' ! r ! c)"
      by simp
    moreover from assms r c wid have "g ! r ! c = DEAD"
      by (simp add: all_dead_cell)
    moreover have "determine_cell_state g (int r) (int c) =
           Inr (if g ! nat (int r) ! nat (int c) = ALIVE
                then (if (0::int) = 2 \<or> (0::int) = 3 \<or> (0::int) = 4 then ALIVE else DEAD)
                else (if (0::int) < 0 \<and> even (0::int) then ALIVE else DEAD))"
      using assms(1) _ _ _ _ all_dead_count [OF assms]
      by (rule determine_cell_state_value) (use r c in \<open>simp_all add: py_len_def\<close>)
    ultimately show "g' ! r ! c = g ! r ! c"
      by (simp add: dead_is_not_alive)
  qed
  with len have "g' = g"
    by (simp add: nth_equalityI)
  with run all_dead_count [OF assms] show ?thesis
    by simp
qed

theorem all_dead_is_fixed_point_witness:
  "rectangular [[''.'', ''.''], [''.'', ''.''], [''.'', ''.'']]
   \<and> all_dead [[''.'', ''.''], [''.'', ''.''], [''.'', ''.'']]
   \<and> step_matrix [[''.'', ''.''], [''.'', ''.''], [''.'', ''.'']]
        = Inr [[''.'', ''.''], [''.'', ''.''], [''.'', ''.'']]
   \<and> count_alive_neighbors [[''.'', ''.''], [''.'', ''.''], [''.'', ''.'']] 2 1 = Inr 0"
proof -
  have h1: "rectangular [[''.'', ''.''], [''.'', ''.''], [''.'', ''.'']]"
    by (simp add: rectangular_def)
  have h2: "all_dead [[''.'', ''.''], [''.'', ''.''], [''.'', ''.'']]"
    by (simp add: all_dead_def DEAD_def)
  from all_dead_is_fixed_point [OF h1 h2, of 2 1] h1 h2 show ?thesis
    by blast
qed

text \<open>
  Claim C8. On a rectangular grid and an in-bounds coordinate,
  \<^verbatim>\<open>count_alive_neighbors\<close> returns an integer between 0 and 8.
\<close>

theorem count_alive_neighbors_bounds:
  assumes "rectangular g" and "0 \<le> row" and "row < py_len g"
    and "0 \<le> col" and "col < py_len (hd g)"
  shows "\<exists>n. count_alive_neighbors g row col = Inr n \<and> 0 \<le> n \<and> n \<le> 8"
  using torus_sum_range [of g "\<lambda>dr. (row + dr) mod py_len g" "\<lambda>dc. (col + dc) mod py_len (hd g)"]
  by (simp add: count_alive_neighbors_value [OF assms(1)])

theorem count_alive_neighbors_bounds_witness:
  "rectangular [[ALIVE]] \<and> (0::int) \<le> 0 \<and> 0 < py_len [[ALIVE]] \<and> 0 < py_len (hd [[ALIVE]])
   \<and> (\<exists>n. count_alive_neighbors [[ALIVE]] 0 0 = Inr n \<and> 0 \<le> n \<and> n \<le> 8)"
proof -
  have h1: "rectangular [[ALIVE]]"
    by (simp add: rectangular_def)
  have h2: "(0::int) \<le> 0" and h3: "0 < py_len [[ALIVE]]" and h5: "0 < py_len (hd [[ALIVE]])"
    by (simp_all add: py_len_def)
  from count_alive_neighbors_bounds [OF h1 h2 h3 h2 h5] h1 h2 h3 h5 show ?thesis
    by blast
qed

text \<open>
  Claim C9. On a rectangular grid (and, for the counter, an in-bounds coordinate)
  neither \<^verbatim>\<open>step_matrix\<close> nor \<^verbatim>\<open>count_alive_neighbors\<close> raises: both return a value, the
  read of row 0 that fetches the column count succeeds, and for every offset the two wrapped
  indices lie inside the grid and both reads through them succeed.
\<close>

theorem core_always_succeeds:
  assumes "rectangular g" and "0 \<le> row" and "row < py_len g"
    and "0 \<le> col" and "col < py_len (hd g)"
  shows "(\<exists>g'. step_matrix g = Inr g')
       \<and> (\<exists>n. count_alive_neighbors g row col = Inr n)
       \<and> py_index g 0 = Inr (hd g)
       \<and> (\<exists>wrapped_r wrapped_c line v.
             py_mod (row + dr) (py_len g) = Inr wrapped_r
           \<and> 0 \<le> wrapped_r \<and> wrapped_r < py_len g
           \<and> py_mod (col + dc) (py_len (hd g)) = Inr wrapped_c
           \<and> 0 \<le> wrapped_c \<and> wrapped_c < py_len (hd g)
           \<and> py_index g wrapped_r = Inr line
           \<and> py_index line wrapped_c = Inr v)"
proof -
  from assms(1) have "py_len g \<noteq> 0" "py_len (hd g) \<noteq> 0"
    by (simp_all add: rectangular_def py_len_def)
  then have "py_mod (row + dr) (py_len g) = Inr ((row + dr) mod py_len g)"
    and "py_mod (col + dc) (py_len (hd g)) = Inr ((col + dc) mod py_len (hd g))"
    by (simp_all add: py_mod_def)
  with wrapped_cell_read [OF assms(1), of "row + dr" "col + dc"]
  have "\<exists>wrapped_r wrapped_c line v.
             py_mod (row + dr) (py_len g) = Inr wrapped_r
           \<and> 0 \<le> wrapped_r \<and> wrapped_r < py_len g
           \<and> py_mod (col + dc) (py_len (hd g)) = Inr wrapped_c
           \<and> 0 \<le> wrapped_c \<and> wrapped_c < py_len (hd g)
           \<and> py_index g wrapped_r = Inr line
           \<and> py_index line wrapped_c = Inr v"
    by blast
  with step_matrix_cells [OF assms(1)] count_alive_neighbors_succeeds [OF assms(1), of row col]
    rectangular_first_row [OF assms(1)]
  show ?thesis
    by blast
qed

theorem core_always_succeeds_witness:
  "rectangular top_row_alive \<and> (0::int) \<le> 2 \<and> 2 < py_len top_row_alive
   \<and> (0::int) \<le> 0 \<and> 0 < py_len (hd top_row_alive)
   \<and> (\<exists>g'. step_matrix top_row_alive = Inr g')
   \<and> (\<exists>n. count_alive_neighbors top_row_alive 2 0 = Inr n)
   \<and> py_index top_row_alive 0 = Inr (hd top_row_alive)
   \<and> (\<exists>wrapped_r wrapped_c line v.
             py_mod (2 + 1) (py_len top_row_alive) = Inr wrapped_r
           \<and> 0 \<le> wrapped_r \<and> wrapped_r < py_len top_row_alive
           \<and> py_mod (0 + (-1)) (py_len (hd top_row_alive)) = Inr wrapped_c
           \<and> 0 \<le> wrapped_c \<and> wrapped_c < py_len (hd top_row_alive)
           \<and> py_index top_row_alive wrapped_r = Inr line
           \<and> py_index line wrapped_c = Inr v)"
proof -
  have h1: "rectangular top_row_alive"
    by (simp add: rectangular_def top_row_alive_def)
  have h2: "(0::int) \<le> 2" and h3: "2 < py_len top_row_alive"
    and h4: "(0::int) \<le> 0" and h5: "0 < py_len (hd top_row_alive)"
    by (simp_all add: py_len_def top_row_alive_def)
  from core_always_succeeds [OF h1 h2 h3 h4 h5, of 1 "-1"] h1 h2 h3 h4 h5 show ?thesis
    by blast
qed

text \<open>
  Claim C10. Whatever strings the input grid holds, every cell of a grid returned
  by \<^verbatim>\<open>step_matrix\<close> is \<^verbatim>\<open>'O'\<close> or \<^verbatim>\<open>'.'\<close>, and \<^verbatim>\<open>determine_cell_state\<close> returns nothing
  else. A cell other than \<^verbatim>\<open>'O'\<close> is read as dead: replacing every such cell by \<^verbatim>\<open>'.'\<close>
  changes no result of the counter, of the rule or of the step. On every rectangular input
  the step does return, so the two-valued invariant holds after the first step and after
  every later one.
\<close>

theorem step_establishes_two_valued_cells:
  "(step_matrix g = Inr g' \<longrightarrow> two_valued g')
   \<and> (determine_cell_state g row col = Inr v \<longrightarrow> v = ALIVE \<or> v = DEAD)
   \<and> count_alive_neighbors (map (map as_dead) g) row col = count_alive_neighbors g row col
   \<and> determine_cell_state (map (map as_dead) g) row col = determine_cell_state g row col
   \<and> step_matrix (map (map as_dead) g) = step_matrix g
   \<and> (rectangular g \<longrightarrow> (\<exists>g''. step_matrix g = Inr g'' \<and> two_valued g''))"
proof (intro conjI impI)
  show "two_valued g'" if "step_matrix g = Inr g'"
    using that by (rule step_matrix_two_valued)
  show "v = ALIVE \<or> v = DEAD" if "determine_cell_state g row col = Inr v"
    using that by (rule determine_cell_state_two_valued)
  show "count_alive_neighbors (map (map as_dead) g) row col = count_alive_neighbors g row col"
    by (rule count_alive_neighbors_as_dead)
  show "determine_cell_state (map (map as_dead) g) row col = determine_cell_state g row col"
    by (rule determine_cell_state_as_dead)
  show "step_matrix (map (map as_dead) g) = step_matrix g"
    by (rule step_matrix_as_dead)
  show "\<exists>g''. step_matrix g = Inr g'' \<and> two_valued g''" if "rectangular g"
    using step_matrix_cells [OF that] step_matrix_two_valued by blast
qed

theorem step_establishes_two_valued_cells_witness:
  "step_matrix [[''x'', ''O''], [''O'', ''?'']] = Inr [[''O'', ''O''], [''O'', ''O'']]
   \<and> \<not> two_valued [[''x'', ''O''], [''O'', ''?'']]
   \<and> two_valued [[''O'', ''O''], [''O'', ''O'']]
   \<and> determine_cell_state [[''x'', ''O''], [''O'', ''?'']] 0 0 = Inr ALIVE
   \<and> rectangular [[''x'', ''O''], [''O'', ''?'']]
   \<and> map (map as_dead) [[''x'', ''O''], [''O'', ''?'']] = [[''.'', ''O''], [''O'', ''.'']]
   \<and> step_matrix [[''.'', ''O''], [''O'', ''.'']] = Inr [[''O'', ''O''], [''O'', ''O'']]"
proof -
  let ?g = "[[''x'', ''O''], [''O'', ''?'']]" and ?g' = "[[''O'', ''O''], [''O'', ''O'']]"
  have run: "step_matrix ?g = Inr ?g'"
    by code_simp
  have cell: "determine_cell_state ?g 0 0 = Inr ALIVE"
    by code_simp
  have rect: "rectangular ?g"
    by (simp add: rectangular_def)
  have odd: "\<not> two_valued ?g"
    by (simp add: two_valued_def ALIVE_def DEAD_def)
  have norm: "map (map as_dead) ?g = [[''.'', ''O''], [''O'', ''.'']]"
    by (simp add: as_dead_def ALIVE_def DEAD_def)
  from step_establishes_two_valued_cells [of ?g ?g' 0 0 ALIVE] run cell rect
  have "two_valued ?g'" and "step_matrix (map (map as_dead) ?g) = Inr ?g'"
    by simp_all
  with run cell rect odd norm show ?thesis
    by simp
qed

end
